theory Spec2Isabelle
  imports Complex_Main
begin

section \<open>Data access layer: \<open>src/utils/api.ts\<close>\<close>

text \<open>
  A JSON value as \<open>response.json()\<close> produces it.  Numbers are modelled as reals
  (JSON has no NaN).
\<close>

datatype json =
    JNull
  | JBool bool
  | JNum real
  | JStr string
  | JArr "json list"
  | JObj "(string \<times> json) list"

text \<open>
  JavaScript truthiness of a parsed JSON value, as tested by \<open>if (cache[path])\<close>:
  \<open>null\<close>, \<open>false\<close>, \<open>0\<close> and the empty string are falsy, everything else
  (every array and object included) is truthy.
\<close>

fun truthy :: "json \<Rightarrow> bool" where
  "truthy JNull = False"
| "truthy (JBool b) = b"
| "truthy (JNum n) = (n \<noteq> 0)"
| "truthy (JStr s) = (s \<noteq> [])"
| "truthy (JArr xs) = True"
| "truthy (JObj kvs) = True"

text \<open>
  What the network answers to one \<open>fetch\<close>: the transport fails (the promise rejects),
  or a response arrives with its \<open>ok\<close> flag, its status text and its body, which
  parses as JSON or does not (\<open>None\<close>).
\<close>

datatype response =
    Rejected
  | Response bool string "json option"

datatype fetch_error =
    NetworkError
  | Error string
  | SyntaxError

text \<open>
  The module state: the \<open>cache\<close> object, and the log of the network requests issued so
  far (the paths fetched, each below the constant \<open>BASE_URL\<close>).  Every caller passes a
  key that ends in \<open>.json\<close>, so a lookup never reaches an inherited property of the
  object and the cache is a finite map.
\<close>

record api_state =
  cache :: "string \<rightharpoonup> json"
  requests :: "string list"

definition cached :: "api_state \<Rightarrow> string \<Rightarrow> json option" where
  "cached st path =
     (case cache st path of
        None \<Rightarrow> None
      | Some v \<Rightarrow> if truthy v then Some v else None)"

definition fetchJson ::
  "response \<Rightarrow> string \<Rightarrow> api_state \<Rightarrow> (fetch_error + json) \<times> api_state" where
  "fetchJson net path st =
     (case cached st path of
        Some v \<Rightarrow> (Inr v, st)
      | None \<Rightarrow>
          (let st1 = st\<lparr>requests := requests st @ [path]\<rparr> in
           case net of
             Rejected \<Rightarrow> (Inl NetworkError, st1)
           | Response ok statusText body \<Rightarrow>
               if \<not> ok then
                 (Inl (Error (''Failed to fetch '' @ path @ '': '' @ statusText)), st1)
               else
                 (case body of
                    None \<Rightarrow> (Inl SyntaxError, st1)
                  | Some data \<Rightarrow> (Inr data, st1\<lparr>cache := (cache st1)(path \<mapsto> data)\<rparr>))))"

section \<open>The search component\<close>

subsection \<open>Records of the component\<close>

datatype result_type = Virus | Protein

record SearchResult =
  r_type :: result_type
  r_id :: string
  r_name :: string
  r_virusId :: "string option"
  r_virusName :: "string option"

record VirusIndex =
  v_id :: string
  v_name :: string

record ProteinSearchItem =
  p_id :: string
  p_name :: string
  p_virusId :: string
  p_virusName :: string

subsection \<open>The fuzzy matcher\<close>

text \<open>
  One hit of a search: the record, its position in the collection searched, and its
  score (lower is better).
\<close>

record 'a FuseResult =
  item :: 'a
  refIndex :: nat
  score :: real

text \<open>
  Modelled from the spec: the fuzzy matcher is the library Fuse.js, whose code is not
  among the sources.  Given a collection of records, the text fields to search and a
  query, it returns the records whose score against the query falls under a fixed
  threshold, ranked ascending by score, equal scores keeping the input order (a stable
  sort), truncated to a maximum count.  The scoring of a query against the field values
  of a record is the parameter \<open>fz\<close>.
\<close>

definition fuse_search ::
  "(string \<Rightarrow> string list \<Rightarrow> real) \<Rightarrow> real \<Rightarrow> ('a \<Rightarrow> string list) \<Rightarrow> 'a list
     \<Rightarrow> string \<Rightarrow> nat \<Rightarrow> 'a FuseResult list" where
  "fuse_search fz threshold keys docs q limit =
     take limit
       (sort_key score
          (filter (\<lambda>r. score r < threshold)
             (map (\<lambda>(i, d). \<lparr>item = d, refIndex = i, score = fz q (keys d)\<rparr>)
                (enumerate 0 docs))))"

text \<open>The two indexes of the component: their keys, threshold 0.3 and limits 5 and 8.\<close>

definition virusSearch ::
  "(string \<Rightarrow> string list \<Rightarrow> real) \<Rightarrow> VirusIndex list \<Rightarrow> string \<Rightarrow> VirusIndex FuseResult list" where
  "virusSearch fz idx q = fuse_search fz (3 / 10) (\<lambda>v. [v_name v, v_id v]) idx q 5"

definition proteinSearch ::
  "(string \<Rightarrow> string list \<Rightarrow> real) \<Rightarrow> ProteinSearchItem list \<Rightarrow> string
     \<Rightarrow> ProteinSearchItem FuseResult list" where
  "proteinSearch fz idx q =
     fuse_search fz (3 / 10) (\<lambda>p. [p_name p, p_id p, p_virusName p]) idx q 8"

definition virusResult :: "VirusIndex FuseResult \<Rightarrow> SearchResult" where
  "virusResult r =
     \<lparr>r_type = Virus, r_id = v_id (item r), r_name = v_name (item r),
      r_virusId = None, r_virusName = None\<rparr>"

definition proteinResult :: "ProteinSearchItem FuseResult \<Rightarrow> SearchResult" where
  "proteinResult r =
     \<lparr>r_type = Protein, r_id = p_id (item r), r_name = p_name (item r),
      r_virusId = Some (p_virusId (item r)), r_virusName = Some (p_virusName (item r))\<rparr>"

subsection \<open>State of the component and of its environment\<close>

text \<open>
  The first eight fields are the component's own state (\<open>useState\<close> and the timer
  reference).  The others are the environment it acts on: the timeouts that are pending
  (handle, delay in milliseconds, the query captured by the callback), the handle the
  next \<open>setTimeout\<close> returns (handles are positive, hence truthy), the deep fetches in
  flight (request number and the query of the \<open>deepSearch\<close> call that awaits it), the
  log of the resources fetched, whether the last run of the query effect returned its
  cleanup function, the routes navigated to, the errors logged to the console, and the
  exceptions that escaped an event handler.
\<close>

record SearchState =
  virusIndex :: "VirusIndex list"
  loading :: bool
  query :: string
  results :: "SearchResult list"
  isOpen :: bool
  selectedIndex :: int
  isDeepSearching :: bool
  deepSearchRef :: "nat option"
  timers :: "(nat \<times> nat \<times> string) list"
  nextHandle :: nat
  pending :: "(nat \<times> string) list"
  nextRequest :: nat
  fetched :: "string list"
  effectCleanup :: bool
  navigated :: "string list"
  consoleErrors :: nat
  uncaught :: nat

text \<open>The state after mounting: the light index is being fetched, the query effect
  has run once on the empty query.\<close>

definition mounted :: SearchState where
  "mounted =
     \<lparr>virusIndex = [], loading = True, query = [], results = [], isOpen = False,
      selectedIndex = 0, isDeepSearching = False, deepSearchRef = None,
      timers = [], nextHandle = 1, pending = [], nextRequest = 0,
      fetched = [''search-viruses.json''], effectCleanup = False,
      navigated = [], consoleErrors = 0, uncaught = 0\<rparr>"

text \<open>\<open>virusFuse\<close>: null while the index is empty, else the index built over it.\<close>

definition virusFuse :: "SearchState \<Rightarrow> VirusIndex list option" where
  "virusFuse s = (if virusIndex s = [] then None else Some (virusIndex s))"

definition clearTimeout :: "nat \<Rightarrow> SearchState \<Rightarrow> SearchState" where
  "clearTimeout h s = s\<lparr>timers := filter (\<lambda>t. fst t \<noteq> h) (timers s)\<rparr>"

definition clearRef :: "SearchState \<Rightarrow> SearchState" where
  "clearRef s = (case deepSearchRef s of None \<Rightarrow> s | Some h \<Rightarrow> clearTimeout h s)"

subsection \<open>Deep search\<close>

text \<open>
  \<open>deepSearch\<close> up to its first \<open>await\<close>: the length guard, the pending indicator, and
  the fetch of the full index.
\<close>

definition deepSearch :: "string \<Rightarrow> SearchState \<Rightarrow> SearchState" where
  "deepSearch searchQuery s =
     (if length searchQuery < 3 then s
      else s\<lparr>isDeepSearching := True,
             fetched := fetched s @ [''search-index.json''],
             pending := pending s @ [(nextRequest s, searchQuery)],
             nextRequest := Suc (nextRequest s)\<rparr>)"

text \<open>The rest of the \<open>try\<close> block and \<open>finally\<close>, once the index has arrived.\<close>

definition deepSearchResolved ::
  "(string \<Rightarrow> string list \<Rightarrow> real) \<Rightarrow> string \<Rightarrow> ProteinSearchItem list
     \<Rightarrow> SearchState \<Rightarrow> SearchState" where
  "deepSearchResolved fz searchQuery proteins s =
     (let proteinResults = proteinSearch fz proteins searchQuery;
          virusResults = filter (\<lambda>r. r_type r = Virus) (results s);
          newProteinResults = map proteinResult proteinResults
      in s\<lparr>results := take 4 virusResults @ newProteinResults,
            isDeepSearching := False\<rparr>)"

text \<open>\<open>catch\<close> and \<open>finally\<close>, when the fetch or the parsing failed.\<close>

definition deepSearchFailed :: "SearchState \<Rightarrow> SearchState" where
  "deepSearchFailed s =
     s\<lparr>consoleErrors := Suc (consoleErrors s), isDeepSearching := False\<rparr>"

subsection \<open>The query effect\<close>

definition queryEffect :: "(string \<Rightarrow> string list \<Rightarrow> real) \<Rightarrow> SearchState \<Rightarrow> SearchState" where
  "queryEffect fz s =
     (case virusFuse s of
        None \<Rightarrow> s\<lparr>results := [], effectCleanup := False\<rparr>
      | Some idx \<Rightarrow>
          if length (query s) < 2 then s\<lparr>results := [], effectCleanup := False\<rparr>
          else
            (let s1 = clearRef s;
                 s2 = s1\<lparr>results := map virusResult (virusSearch fz idx (query s)),
                         selectedIndex := 0\<rparr>;
                 s3 = (if length (query s) \<ge> 3
                       then s2\<lparr>deepSearchRef := Some (nextHandle s2),
                               timers := timers s2 @ [(nextHandle s2, 300, query s)],
                               nextHandle := Suc (nextHandle s2)\<rparr>
                       else s2)
             in s3\<lparr>effectCleanup := True\<rparr>))"

text \<open>
  A change of a dependency runs the cleanup the previous run returned (if it returned
  one), then the effect again.
\<close>

definition queryCleanup :: "SearchState \<Rightarrow> SearchState" where
  "queryCleanup s = (if effectCleanup s then clearRef s else s)"

definition rerunEffect :: "(string \<Rightarrow> string list \<Rightarrow> real) \<Rightarrow> SearchState \<Rightarrow> SearchState" where
  "rerunEffect fz s = queryEffect fz (queryCleanup s)"

text \<open>\<open>setQuery\<close>: setting the value the state already has re-renders nothing.\<close>

definition setQuery :: "(string \<Rightarrow> string list \<Rightarrow> real) \<Rightarrow> string \<Rightarrow> SearchState \<Rightarrow> SearchState" where
  "setQuery fz v s = (if v = query s then s else rerunEffect fz (s\<lparr>query := v\<rparr>))"

subsection \<open>Selection and keyboard\<close>

text \<open>
  \<open>selectResult\<close>; its argument is \<open>None\<close> when the caller read \<open>results\<close> out of
  range (\<open>undefined\<close>), and then reading \<open>result.type\<close> throws after the two state
  updates.
\<close>

definition selectResult ::
  "(string \<Rightarrow> string list \<Rightarrow> real) \<Rightarrow> SearchResult option \<Rightarrow> SearchState \<Rightarrow> SearchState" where
  "selectResult fz result s =
     (let s1 = (setQuery fz [] s)\<lparr>isOpen := False\<rparr> in
      case result of
        None \<Rightarrow> s1\<lparr>uncaught := Suc (uncaught s1)\<rparr>
      | Some r \<Rightarrow>
          if r_type r = Virus then s1\<lparr>navigated := navigated s1 @ [''/virus/'' @ r_id r]\<rparr>
          else s1\<lparr>navigated := navigated s1 @ [''/protein/'' @ r_id r]\<rparr>)"

definition at_index :: "'a list \<Rightarrow> int \<Rightarrow> 'a option" where
  "at_index xs i = (if 0 \<le> i \<and> i < int (length xs) then Some (xs ! nat i) else None)"

definition handleKeyDown ::
  "(string \<Rightarrow> string list \<Rightarrow> real) \<Rightarrow> string \<Rightarrow> SearchState \<Rightarrow> SearchState" where
  "handleKeyDown fz key s =
     (if \<not> isOpen s \<or> length (results s) = 0 then s
      else if key = ''ArrowDown'' then
        s\<lparr>selectedIndex := min (selectedIndex s + 1) (int (length (results s)) - 1)\<rparr>
      else if key = ''ArrowUp'' then
        s\<lparr>selectedIndex := max (selectedIndex s - 1) 0\<rparr>
      else if key = ''Enter'' then
        selectResult fz (at_index (results s) (selectedIndex s)) s
      else if key = ''Escape'' then
        s\<lparr>isOpen := False\<rparr>
      else s)"

subsection \<open>Events\<close>

datatype event =
    LightLoaded "VirusIndex list"
  | LightFailed
  | Change string
  | Focus
  | KeyDown string
  | MouseDownOutside
  | Click nat
  | Timeout nat
  | DeepLoaded nat "ProteinSearchItem list"
  | DeepFailed nat

text \<open>
  One event of the event loop.  The light index arrives or fails once, while
  \<open>loading\<close>; it arrives as a new array, so \<open>virusFuse\<close> is computed again, and the
  query effect runs again unless \<open>virusFuse\<close> was null and is null.  The input is
  disabled while \<open>loading\<close>; the result buttons exist while the dropdown is open; a
  timeout fires if it is still pending; a deep fetch settles if it is in flight.
\<close>

definition step :: "(string \<Rightarrow> string list \<Rightarrow> real) \<Rightarrow> event \<Rightarrow> SearchState \<Rightarrow> SearchState" where
  "step fz ev s =
     (case ev of
        LightLoaded idx \<Rightarrow>
          if \<not> loading s then s
          else
            (let s1 = s\<lparr>virusIndex := idx\<rparr>;
                 s2 = (if virusFuse s1 = None \<and> virusFuse s = None then s1
                       else rerunEffect fz s1)
             in s2\<lparr>loading := False\<rparr>)
      | LightFailed \<Rightarrow>
          if \<not> loading s then s
          else s\<lparr>consoleErrors := Suc (consoleErrors s), loading := False\<rparr>
      | Change v \<Rightarrow>
          if loading s then s else (setQuery fz v s)\<lparr>isOpen := True\<rparr>
      | Focus \<Rightarrow>
          if loading s then s else s\<lparr>isOpen := True\<rparr>
      | KeyDown key \<Rightarrow>
          if loading s then s else handleKeyDown fz key s
      | MouseDownOutside \<Rightarrow> s\<lparr>isOpen := False\<rparr>
      | Click i \<Rightarrow>
          if isOpen s \<and> i < length (results s)
          then selectResult fz (Some (results s ! i)) s else s
      | Timeout h \<Rightarrow>
          (case map_of (timers s) h of
             None \<Rightarrow> s
           | Some (delay, q) \<Rightarrow> deepSearch q (clearTimeout h s))
      | DeepLoaded n proteins \<Rightarrow>
          (case map_of (pending s) n of
             None \<Rightarrow> s
           | Some q \<Rightarrow>
               deepSearchResolved fz q proteins
                 (s\<lparr>pending := filter (\<lambda>p. fst p \<noteq> n) (pending s)\<rparr>))
      | DeepFailed n \<Rightarrow>
          (case map_of (pending s) n of
             None \<Rightarrow> s
           | Some q \<Rightarrow>
               deepSearchFailed (s\<lparr>pending := filter (\<lambda>p. fst p \<noteq> n) (pending s)\<rparr>)))"

text \<open>A session: the events in order, from the mounted component.\<close>

fun run :: "(string \<Rightarrow> string list \<Rightarrow> real) \<Rightarrow> SearchState \<Rightarrow> event list \<Rightarrow> SearchState" where
  "run fz s [] = s"
| "run fz s (ev # evs) = run fz (step fz ev s) evs"

text \<open>A scoring for concrete sessions: 0 for a record with a field equal to the query,
  1 for any other.\<close>

definition exact :: "string \<Rightarrow> string list \<Rightarrow> real" where
  "exact q ks = (if q \<in> set ks then 0 else 1)"


subsection \<open>Concrete sessions\<close>

text \<open>Two viruses named \<open>abc\<close> are loaded and the user types \<open>abc\<close>.\<close>

definition session_abc :: SearchState where
  "session_abc =
     run exact mounted
       [LightLoaded [\<lparr>v_id = ''v1'', v_name = ''abc''\<rparr>, \<lparr>v_id = ''v2'', v_name = ''abc''\<rparr>],
        Change ''abc'']"

text \<open>An empty module state of the data access layer.\<close>

definition api_empty :: api_state where
  "api_empty = \<lparr>cache = Map.empty, requests = []\<rparr>"

text \<open>Sessions around one virus and one protein named \<open>spike\<close>, and around five
  viruses named \<open>abc\<close>.\<close>

definition v_spike :: VirusIndex where
  "v_spike = \<lparr>v_id = ''v1'', v_name = ''spike''\<rparr>"

definition p_spike :: ProteinSearchItem where
  "p_spike = \<lparr>p_id = ''p1'', p_name = ''spike'', p_virusId = ''v1'', p_virusName = ''SARS''\<rparr>"

definition session_in_flight :: SearchState where
  "session_in_flight =
     run exact mounted [LightLoaded [v_spike], Change ''spike'', Timeout 1, Change []]"

definition session_stale :: SearchState where
  "session_stale = step exact (DeepLoaded 0 [p_spike]) session_in_flight"

definition session_typed :: SearchState where
  "session_typed = run exact mounted [LightLoaded [v_spike], Change ''spike'']"

definition session_two_deep :: SearchState where
  "session_two_deep =
     run exact mounted
       [LightLoaded [v_spike], Change ''spike'', Timeout 1, DeepLoaded 0 [p_spike],
        Change ''spik'', Timeout 2]"

definition v_abc :: "string \<Rightarrow> VirusIndex" where
  "v_abc i = \<lparr>v_id = i, v_name = ''abc''\<rparr>"

definition session_five :: SearchState where
  "session_five =
     run exact mounted
       [LightLoaded [v_abc ''v1'', v_abc ''v2'', v_abc ''v3'', v_abc ''v4'', v_abc ''v5''],
        Change ''abc'', KeyDown ''ArrowDown'', KeyDown ''ArrowDown'', KeyDown ''ArrowDown'',
        KeyDown ''ArrowDown'', Timeout 1]"

definition session_shrunk :: SearchState where
  "session_shrunk = step exact (DeepLoaded 0 []) session_five"

definition session_merged :: SearchState where
  "session_merged =
     run exact mounted
       [LightLoaded [v_spike], Change ''spike'', Timeout 1, DeepLoaded 0 [p_spike]]"

definition session_short :: SearchState where
  "session_short =
     run exact mounted [LightLoaded [v_spike], Change ''spike'', Change ''s'']"

definition session_short_stale :: SearchState where
  "session_short_stale =
     run exact mounted
       [LightLoaded [v_spike], Change ''spike'', Timeout 1, Change ''s'',
        DeepLoaded 0 [p_spike]]"

definition session_light_failed :: SearchState where
  "session_light_failed = run exact mounted [LightFailed, Change ''spike'']"

definition session_light_empty :: SearchState where
  "session_light_empty = run exact mounted [LightLoaded [], Change ''spike'']"

section \<open>Properties of sessions\<close>

text \<open>Hits ranked by score, equal scores by position in the collection searched.\<close>

definition ranked :: "'a FuseResult list \<Rightarrow> bool" where
  "ranked rs =
     sorted_wrt (\<lambda>a b. score a < score b \<or> (score a = score b \<and> refIndex a < refIndex b)) rs"

text \<open>
  Invariants of a session.  At most one timeout is pending, and it is the one the timer
  reference holds, set by the last run of the query effect for the current query; while
  the light index is empty nothing has been searched; \<open>results\<close> is a prefix of a
  virus search followed by a protein search.
\<close>

definition timer_shape :: "SearchState \<Rightarrow> bool" where
  "timer_shape s =
     (timers s = [] \<or>
      (\<exists>h d q. timers s = [(h, d, q)] \<and> deepSearchRef s = Some h \<and> effectCleanup s))"

definition timer_ok :: "SearchState \<Rightarrow> bool" where
  "timer_ok s =
     (timers s = [] \<or>
      (\<exists>h. timers s = [(h, 300, query s)] \<and> deepSearchRef s = Some h \<and> effectCleanup s
           \<and> 3 \<le> length (query s)))"

definition unloaded_ok :: "SearchState \<Rightarrow> bool" where
  "unloaded_ok s =
     ((loading s \<longrightarrow> virusIndex s = []) \<and>
      (virusIndex s = [] \<longrightarrow>
         results s = [] \<and> timers s = [] \<and> pending s = []
       \<and> fetched s = [''search-viruses.json'']))"

definition tiers_ok :: "(string \<Rightarrow> string list \<Rightarrow> real) \<Rightarrow> SearchState \<Rightarrow> bool" where
  "tiers_ok fz s =
     (\<exists>k qv idx qp.
        results s = map virusResult (take k (virusSearch fz (virusIndex s) qv))
                  @ map proteinResult (proteinSearch fz idx qp))"

text \<open>While the query is shorter than 2, \<open>results\<close> holds no virus entry.\<close>

definition short_ok :: "SearchState \<Rightarrow> bool" where
  "short_ok s =
     (length (query s) < 2 \<longrightarrow> filter (\<lambda>r. r_type r = Virus) (results s) = [])"

definition session_inv :: "(string \<Rightarrow> string list \<Rightarrow> real) \<Rightarrow> SearchState \<Rightarrow> bool" where
  "session_inv fz s = (timer_ok s \<and> unloaded_ok s \<and> tiers_ok fz s)"

section \<open>The fuzzy matcher ranks its hits\<close>

lemma ranked_insort:
  assumes "ranked ys" and "\<forall>y\<in>set ys. refIndex x < refIndex y"
  shows "ranked (insort_key score x ys)"
  using assms
  by (induction ys) (auto simp: ranked_def set_insort_key)

lemma ranked_sort:
  assumes "sorted_wrt (\<lambda>a b. refIndex a < refIndex b) xs"
  shows "ranked (sort_key score xs)"
  using assms
proof (induction xs)
  case Nil
  show ?case by (simp add: ranked_def)
next
  case (Cons x xs)
  then show ?case by (auto intro!: ranked_insort)
qed

lemma enumerate_increasing:
  "sorted_wrt (\<lambda>a b. refIndex a < refIndex b)
     (map (\<lambda>(i, d). \<lparr>item = d, refIndex = i, score = g d\<rparr>) (enumerate n docs))"
  by (induction docs arbitrary: n) (auto simp: in_set_enumerate_eq)

lemma ranked_fuse_search: "ranked (fuse_search fz t keys docs q limit)"
proof -
  let ?hits = "map (\<lambda>(i, d). \<lparr>item = d, refIndex = i, score = fz q (keys d)\<rparr>) (enumerate 0 docs)"
  have "sorted_wrt (\<lambda>a b. refIndex a < refIndex b) ?hits"
    by (rule enumerate_increasing)
  then have "sorted_wrt (\<lambda>a b. refIndex a < refIndex b) (filter (\<lambda>r. score r < t) ?hits)"
    by (rule sorted_wrt_filter)
  then have "ranked (sort_key score (filter (\<lambda>r. score r < t) ?hits))"
    by (rule ranked_sort)
  then show ?thesis
    unfolding fuse_search_def ranked_def by (rule sorted_wrt_take)
qed

lemma fuse_search_hit:
  assumes "r \<in> set (fuse_search fz t keys docs q limit)"
  shows "refIndex r < length docs \<and> item r = docs ! refIndex r
       \<and> score r = fz q (keys (item r)) \<and> score r < t"
proof -
  from assms have "r \<in> set (filter (\<lambda>r. score r < t)
      (map (\<lambda>(i, d). \<lparr>item = d, refIndex = i, score = fz q (keys d)\<rparr>) (enumerate 0 docs)))"
    unfolding fuse_search_def by (auto dest: in_set_takeD)
  then show ?thesis
    by (auto simp: in_set_enumerate_eq)
qed

lemma fuse_search_nil [simp]: "fuse_search fz t keys [] q limit = []"
  by (simp add: fuse_search_def)

section \<open>Arrow keys\<close>

text \<open>
  C9.  With the dropdown open and \<open>results\<close> non-empty, ArrowDown sets
  \<open>selectedIndex\<close> to \<open>min (selectedIndex + 1) (len - 1)\<close> and ArrowUp sets it to
  \<open>max (selectedIndex - 1) 0\<close>; from an index within \<open>[0, len - 1]\<close> both keys stay
  within it, and neither wraps: ArrowDown at the last entry stays there, ArrowUp at the
  first stays there.
\<close>

theorem arrow_keys_clamp:
  assumes "isOpen s" and "results s \<noteq> []"
  shows "selectedIndex (handleKeyDown fz ''ArrowDown'' s)
           = min (selectedIndex s + 1) (int (length (results s)) - 1)
       \<and> selectedIndex (handleKeyDown fz ''ArrowUp'' s) = max (selectedIndex s - 1) 0
       \<and> results (handleKeyDown fz ''ArrowDown'' s) = results s
       \<and> results (handleKeyDown fz ''ArrowUp'' s) = results s
       \<and> (0 \<le> selectedIndex s \<and> selectedIndex s \<le> int (length (results s)) - 1 \<longrightarrow>
            0 \<le> selectedIndex (handleKeyDown fz ''ArrowDown'' s)
          \<and> selectedIndex (handleKeyDown fz ''ArrowDown'' s) \<le> int (length (results s)) - 1
          \<and> 0 \<le> selectedIndex (handleKeyDown fz ''ArrowUp'' s)
          \<and> selectedIndex (handleKeyDown fz ''ArrowUp'' s) \<le> int (length (results s)) - 1)
       \<and> (selectedIndex s = int (length (results s)) - 1 \<longrightarrow>
            selectedIndex (handleKeyDown fz ''ArrowDown'' s) = selectedIndex s)
       \<and> (selectedIndex s = 0 \<longrightarrow>
            selectedIndex (handleKeyDown fz ''ArrowUp'' s) = 0)"
  using assms by (auto simp: handleKeyDown_def)


theorem arrow_keys_clamp_witness:
  "isOpen session_abc \<and> results session_abc \<noteq> []
   \<and> selectedIndex session_abc = 0 \<and> length (results session_abc) = 2
   \<and> selectedIndex (handleKeyDown exact ''ArrowDown'' session_abc) = 1
   \<and> selectedIndex (handleKeyDown exact ''ArrowUp'' session_abc) = 0"
proof -
  have h1: "isOpen session_abc"
    unfolding session_abc_def by code_simp
  have h2: "results session_abc \<noteq> []"
    unfolding session_abc_def by code_simp
  have e1: "selectedIndex session_abc = 0"
    unfolding session_abc_def by code_simp
  have e2: "length (results session_abc) = 2"
    unfolding session_abc_def by code_simp
  show ?thesis
    using h1 h2 e1 e2 arrow_keys_clamp [OF h1 h2, of exact] by simp
qed

section \<open>The cache of \<open>fetchJson\<close>\<close>

lemma fetchJson_stores:
  assumes "fetchJson net path st = (Inr d, st1)"
  shows "cache st1 path = Some d"
proof (cases "cached st path")
  case (Some v)
  with assms have "v = d" and "st1 = st"
    by (simp_all add: fetchJson_def)
  with Some show ?thesis
    by (auto simp: cached_def split: option.splits if_splits)
next
  case None
  with assms show ?thesis
    by (auto simp: fetchJson_def Let_def split: response.splits if_splits option.splits)
qed

text \<open>
  C10.  After a call of \<open>fetchJson\<close> that returned the JSON value \<open>d\<close> for a path, a
  repeated call for the same path returns \<open>d\<close> from the cache, with no network
  request, when \<open>d\<close> is truthy; when \<open>d\<close> is falsy (\<open>null\<close>, \<open>false\<close>, \<open>0\<close>, the
  empty string) the repeated call issues the network request again.
\<close>

theorem fetchJson_cache_truthy:
  assumes "fetchJson net1 path st = (Inr d, st1)"
  shows "(truthy d \<longrightarrow> fetchJson net2 path st1 = (Inr d, st1))
       \<and> (\<not> truthy d \<longrightarrow>
            requests (snd (fetchJson net2 path st1)) = requests st1 @ [path])
       \<and> (d \<in> {JNull, JBool False, JNum 0, JStr []} \<longrightarrow> \<not> truthy d)"
proof -
  have c: "cache st1 path = Some d"
    using assms by (rule fetchJson_stores)
  have t: "truthy d \<Longrightarrow> fetchJson net2 path st1 = (Inr d, st1)"
    using c by (simp add: fetchJson_def cached_def)
  have f: "\<not> truthy d \<Longrightarrow> requests (snd (fetchJson net2 path st1)) = requests st1 @ [path]"
    using c
    by (auto simp: fetchJson_def cached_def Let_def split: response.splits option.splits)
  have z: "d \<in> {JNull, JBool False, JNum 0, JStr []} \<Longrightarrow> \<not> truthy d"
    by auto
  from t f z show ?thesis by blast
qed

theorem fetchJson_cache_truthy_witness:
  "fetchJson (Response True ''OK'' (Some JNull)) ''statistics.json'' api_empty
     = (Inr JNull, \<lparr>cache = [''statistics.json'' \<mapsto> JNull], requests = [''statistics.json'']\<rparr>)
   \<and> \<not> truthy JNull
   \<and> requests (snd (fetchJson (Response True ''OK'' (Some (JNum 7))) ''statistics.json''
        \<lparr>cache = [''statistics.json'' \<mapsto> JNull], requests = [''statistics.json'']\<rparr>))
       = [''statistics.json'', ''statistics.json'']"
proof -
  have h: "fetchJson (Response True ''OK'' (Some JNull)) ''statistics.json'' api_empty
     = (Inr JNull, \<lparr>cache = [''statistics.json'' \<mapsto> JNull], requests = [''statistics.json'']\<rparr>)"
    by (simp add: fetchJson_def cached_def api_empty_def)
  show ?thesis
    using h fetchJson_cache_truthy [OF h, of "Response True ''OK'' (Some (JNum 7))"]
    by simp
qed

section \<open>The query effect and the timer\<close>

lemma timer_ok_shape: "timer_ok s \<Longrightarrow> timer_shape s"
  by (auto simp: timer_ok_def timer_shape_def)

lemma clearRef_timers: "timer_shape s \<Longrightarrow> timers (clearRef s) = []"
  by (auto simp: timer_shape_def clearRef_def clearTimeout_def split: option.splits)

lemma queryCleanup_timers: "timer_shape s \<Longrightarrow> timers (queryCleanup s) = []"
  by (auto simp: queryCleanup_def clearRef_timers) (auto simp: timer_shape_def)

lemma clearRef_other [simp]:
  "virusIndex (clearRef s) = virusIndex s"
  "loading (clearRef s) = loading s"
  "query (clearRef s) = query s"
  "results (clearRef s) = results s"
  "isOpen (clearRef s) = isOpen s"
  "selectedIndex (clearRef s) = selectedIndex s"
  "isDeepSearching (clearRef s) = isDeepSearching s"
  "deepSearchRef (clearRef s) = deepSearchRef s"
  "nextHandle (clearRef s) = nextHandle s"
  "pending (clearRef s) = pending s"
  "nextRequest (clearRef s) = nextRequest s"
  "fetched (clearRef s) = fetched s"
  "effectCleanup (clearRef s) = effectCleanup s"
  "navigated (clearRef s) = navigated s"
  "consoleErrors (clearRef s) = consoleErrors s"
  "uncaught (clearRef s) = uncaught s"
  by (simp_all add: clearRef_def clearTimeout_def split: option.splits)

lemma queryCleanup_other [simp]:
  "virusIndex (queryCleanup s) = virusIndex s"
  "loading (queryCleanup s) = loading s"
  "query (queryCleanup s) = query s"
  "results (queryCleanup s) = results s"
  "isOpen (queryCleanup s) = isOpen s"
  "selectedIndex (queryCleanup s) = selectedIndex s"
  "isDeepSearching (queryCleanup s) = isDeepSearching s"
  "deepSearchRef (queryCleanup s) = deepSearchRef s"
  "nextHandle (queryCleanup s) = nextHandle s"
  "pending (queryCleanup s) = pending s"
  "nextRequest (queryCleanup s) = nextRequest s"
  "fetched (queryCleanup s) = fetched s"
  "effectCleanup (queryCleanup s) = effectCleanup s"
  "navigated (queryCleanup s) = navigated s"
  "consoleErrors (queryCleanup s) = consoleErrors s"
  "uncaught (queryCleanup s) = uncaught s"
  by (simp_all add: queryCleanup_def)

text \<open>What one run of the query effect leaves, from a state with no timeout pending.\<close>

lemma queryEffect_short:
  assumes "virusIndex s = [] \<or> length (query s) < 2"
  shows "queryEffect fz s = s\<lparr>results := [], effectCleanup := False\<rparr>"
  using assms by (auto simp: queryEffect_def virusFuse_def)

lemma queryEffect_light:
  assumes "virusIndex s \<noteq> []" and "length (query s) = 2" and "timers s = []"
  shows "queryEffect fz s =
           s\<lparr>results := map virusResult (virusSearch fz (virusIndex s) (query s)),
             selectedIndex := 0, effectCleanup := True\<rparr>"
  using assms
  by (auto simp: queryEffect_def virusFuse_def Let_def clearRef_def clearTimeout_def
      split: option.splits)

lemma queryEffect_deep:
  assumes "virusIndex s \<noteq> []" and "3 \<le> length (query s)" and "timers s = []"
  shows "queryEffect fz s =
           s\<lparr>results := map virusResult (virusSearch fz (virusIndex s) (query s)),
             selectedIndex := 0,
             deepSearchRef := Some (nextHandle s),
             timers := [(nextHandle s, 300, query s)],
             nextHandle := Suc (nextHandle s),
             effectCleanup := True\<rparr>"
  using assms
  by (auto simp: queryEffect_def virusFuse_def Let_def clearRef_def clearTimeout_def
      split: option.splits)

lemma tiers_ok_nil: "results s = [] \<Longrightarrow> tiers_ok fz s"
  unfolding tiers_ok_def
  by (rule exI [of _ 0], rule exI [of _ "[]"], rule exI [of _ "[]"], rule exI [of _ "[]"])
     (simp add: proteinSearch_def)

lemma tiers_ok_light:
  assumes "results s = map virusResult (virusSearch fz (virusIndex s) q)"
  shows "tiers_ok fz s"
  unfolding tiers_ok_def
  by (rule exI [of _ "length (virusSearch fz (virusIndex s) q)"], rule exI [of _ q],
      rule exI [of _ "[]"], rule exI [of _ "[]"])
     (simp add: proteinSearch_def assms)

lemma filter_virus_tiers:
  "filter (\<lambda>r. r_type r = Virus) (map virusResult vs @ map proteinResult ps) = map virusResult vs"
  by (induction vs) (auto simp: virusResult_def proteinResult_def filter_empty_conv)

lemma tiers_ok_merge:
  assumes "tiers_ok fz s"
    and "results s' = take 4 (filter (\<lambda>r. r_type r = Virus) (results s))
                      @ map proteinResult (proteinSearch fz idx q)"
    and "virusIndex s' = virusIndex s"
  shows "tiers_ok fz s'"
proof -
  from assms(1) obtain k qv idx0 qp where
    r: "results s = map virusResult (take k (virusSearch fz (virusIndex s) qv))
                  @ map proteinResult (proteinSearch fz idx0 qp)"
    unfolding tiers_ok_def by blast
  have f: "filter (\<lambda>r. r_type r = Virus) (results s)
             = map virusResult (take k (virusSearch fz (virusIndex s) qv))"
    unfolding r by (rule filter_virus_tiers)
  have "results s' = map virusResult (take (min 4 k) (virusSearch fz (virusIndex s') qv))
                   @ map proteinResult (proteinSearch fz idx q)"
    unfolding assms(2,3) f by (simp add: take_map)
  then show ?thesis
    unfolding tiers_ok_def by blast
qed

lemma tiers_ok_same:
  assumes "tiers_ok fz s" and "results s' = results s" and "virusIndex s' = virusIndex s"
  shows "tiers_ok fz s'"
  using assms unfolding tiers_ok_def by simp

section \<open>Invariants of every session\<close>

lemma rerun_inv:
  assumes "timer_shape s"
    and "virusIndex s = [] \<longrightarrow> pending s = [] \<and> fetched s = [''search-viruses.json'']"
  shows "timer_ok (rerunEffect fz s) \<and> tiers_ok fz (rerunEffect fz s)
       \<and> (virusIndex (rerunEffect fz s) = [] \<longrightarrow>
            results (rerunEffect fz s) = [] \<and> timers (rerunEffect fz s) = []
          \<and> pending (rerunEffect fz s) = []
          \<and> fetched (rerunEffect fz s) = [''search-viruses.json''])
       \<and> loading (rerunEffect fz s) = loading s
       \<and> virusIndex (rerunEffect fz s) = virusIndex s"
proof -
  let ?c = "queryCleanup s"
  have t: "timers ?c = []"
    using assms(1) by (rule queryCleanup_timers)
  consider (short) "virusIndex ?c = [] \<or> length (query ?c) < 2"
    | (light) "virusIndex ?c \<noteq> []" "length (query ?c) = 2"
    | (deep) "virusIndex ?c \<noteq> []" "3 \<le> length (query ?c)"
    by linarith
  then show ?thesis
  proof cases
    case short
    from queryEffect_short [OF this, of fz] show ?thesis
      using assms(2) t
      by (simp add: rerunEffect_def timer_ok_def tiers_ok_nil)
  next
    case light
    from queryEffect_light [OF this t, of fz] show ?thesis
      using t light(1)
      by (simp add: rerunEffect_def timer_ok_def tiers_ok_light [of _ fz "query s"])
  next
    case deep
    from queryEffect_deep [OF this t, of fz] show ?thesis
      using deep
      by (simp add: rerunEffect_def timer_ok_def tiers_ok_light [of _ fz "query s"])
  qed
qed

lemma session_inv_rerun:
  assumes "timer_shape s" and "unloaded_ok s"
  shows "session_inv fz (rerunEffect fz s)"
  using rerun_inv [OF assms(1), of fz] assms(2)
  by (simp add: session_inv_def unloaded_ok_def)

lemma session_inv_setQuery:
  assumes "session_inv fz s"
  shows "session_inv fz (setQuery fz v s)"
proof (cases "v = query s")
  case True
  with assms show ?thesis by (simp add: setQuery_def)
next
  case False
  have "timer_shape (s\<lparr>query := v\<rparr>)"
    using assms by (auto simp: session_inv_def timer_ok_def timer_shape_def)
  moreover have "unloaded_ok (s\<lparr>query := v\<rparr>)"
    using assms by (simp add: session_inv_def unloaded_ok_def)
  ultimately have "session_inv fz (rerunEffect fz (s\<lparr>query := v\<rparr>))"
    by (rule session_inv_rerun)
  with False show ?thesis by (simp add: setQuery_def)
qed

text \<open>Fields the invariant does not read.\<close>

lemma session_inv_frame:
  assumes "session_inv fz s"
    and "virusIndex s' = virusIndex s" and "query s' = query s"
    and "results s' = results s" and "deepSearchRef s' = deepSearchRef s"
    and "timers s' = timers s" and "pending s' = pending s" and "fetched s' = fetched s"
    and "effectCleanup s' = effectCleanup s" and "loading s' \<longrightarrow> loading s"
  shows "session_inv fz s'"
  using assms
  unfolding session_inv_def timer_ok_def unloaded_ok_def tiers_ok_def by auto

lemma session_inv_selectResult:
  assumes "session_inv fz s"
  shows "session_inv fz (selectResult fz r s)"
proof -
  have q: "session_inv fz (setQuery fz [] s)"
    using assms by (rule session_inv_setQuery)
  have u: "session_inv fz ((setQuery fz [] s)\<lparr>isOpen := False, uncaught := n\<rparr>)" for n
    by (rule session_inv_frame [OF q]; simp)
  have g: "session_inv fz ((setQuery fz [] s)\<lparr>isOpen := False, navigated := ns\<rparr>)" for ns
    by (rule session_inv_frame [OF q]; simp)
  show ?thesis
    by (cases r) (simp_all add: selectResult_def Let_def u g)
qed

lemma session_inv_handleKeyDown:
  assumes "session_inv fz s"
  shows "session_inv fz (handleKeyDown fz key s)"
proof -
  have a: "session_inv fz (s\<lparr>selectedIndex := i\<rparr>)" for i
    by (rule session_inv_frame [OF assms]; simp)
  have b: "session_inv fz (s\<lparr>isOpen := False\<rparr>)"
    by (rule session_inv_frame [OF assms]; simp)
  show ?thesis
    unfolding handleKeyDown_def
    using a b assms session_inv_selectResult [OF assms] by simp
qed

lemma session_inv_Timeout:
  assumes "session_inv fz s"
  shows "session_inv fz (step fz (Timeout h) s)"
proof (cases "map_of (timers s) h")
  case None
  with assms show ?thesis by (simp add: step_def)
next
  case (Some dq)
  then have ne: "timers s \<noteq> []" by auto
  with assms obtain h' where
    t: "timers s = [(h', 300, query s)]" and l: "3 \<le> length (query s)"
    by (auto simp: session_inv_def timer_ok_def)
  from Some t have dq: "h = h'" "dq = (300, query s)"
    by (auto split: if_splits)
  have v: "virusIndex s \<noteq> []"
    using assms ne by (auto simp: session_inv_def unloaded_ok_def)
  have "step fz (Timeout h) s = deepSearch (query s) (clearTimeout h s)"
    using Some dq by (simp add: step_def)
  also have "\<dots> = s\<lparr>timers := [], isDeepSearching := True,
       fetched := fetched s @ [''search-index.json''],
       pending := pending s @ [(nextRequest s, query s)],
       nextRequest := Suc (nextRequest s)\<rparr>"
    using l t dq by (simp add: deepSearch_def clearTimeout_def)
  finally show ?thesis
    using assms v
    by (simp add: session_inv_def timer_ok_def unloaded_ok_def tiers_ok_def)
qed

lemma session_inv_DeepLoaded:
  assumes "session_inv fz s"
  shows "session_inv fz (step fz (DeepLoaded n ps) s)"
proof (cases "map_of (pending s) n")
  case None
  with assms show ?thesis by (simp add: step_def)
next
  case (Some q)
  then have "pending s \<noteq> []" by auto
  then have v: "virusIndex s \<noteq> []"
    using assms by (auto simp: session_inv_def unloaded_ok_def)
  let ?s' = "step fz (DeepLoaded n ps) s"
  have r: "results ?s' = take 4 (filter (\<lambda>r. r_type r = Virus) (results s))
                      @ map proteinResult (proteinSearch fz ps q)"
    and o: "virusIndex ?s' = virusIndex s" "timers ?s' = timers s" "query ?s' = query s"
      "deepSearchRef ?s' = deepSearchRef s" "effectCleanup ?s' = effectCleanup s"
      "loading ?s' = loading s"
    using Some by (simp_all add: step_def deepSearchResolved_def Let_def)
  have "tiers_ok fz ?s'"
    using assms r o(1) by (auto simp: session_inv_def intro: tiers_ok_merge)
  then show ?thesis
    using assms v o by (simp add: session_inv_def timer_ok_def unloaded_ok_def)
qed

lemma session_inv_DeepFailed:
  assumes "session_inv fz s"
  shows "session_inv fz (step fz (DeepFailed n) s)"
proof (cases "map_of (pending s) n")
  case None
  with assms show ?thesis by (simp add: step_def)
next
  case (Some q)
  then have "pending s \<noteq> []" by auto
  then have v: "virusIndex s \<noteq> []"
    using assms by (auto simp: session_inv_def unloaded_ok_def)
  show ?thesis
    using assms v Some
    by (simp add: step_def deepSearchFailed_def session_inv_def timer_ok_def
        unloaded_ok_def tiers_ok_def)
qed

lemma session_inv_loaded:
  assumes "timer_ok s" and "tiers_ok fz s" and "virusIndex s \<noteq> []"
  shows "session_inv fz (s\<lparr>loading := False\<rparr>)"
  using assms by (simp add: session_inv_def timer_ok_def unloaded_ok_def tiers_ok_def)

lemma session_inv_LightLoaded:
  assumes "session_inv fz s"
  shows "session_inv fz (step fz (LightLoaded idx) s)"
proof (cases "loading s")
  case False
  with assms show ?thesis by (simp add: step_def)
next
  case True
  then have e: "virusIndex s = []" "results s = []" "timers s = []" "pending s = []"
    "fetched s = [''search-viruses.json'']"
    using assms by (auto simp: session_inv_def unloaded_ok_def)
  let ?s1 = "s\<lparr>virusIndex := idx\<rparr>"
  show ?thesis
  proof (cases "idx = []")
    case True
    then have "step fz (LightLoaded idx) s = s\<lparr>virusIndex := [], loading := False\<rparr>"
      using \<open>loading s\<close> e(1) by (simp add: step_def virusFuse_def)
    then show ?thesis
      using e by (simp add: session_inv_def timer_ok_def unloaded_ok_def tiers_ok_nil)
  next
    case False
    then have st: "step fz (LightLoaded idx) s = (rerunEffect fz ?s1)\<lparr>loading := False\<rparr>"
      using \<open>loading s\<close> e(1) by (simp add: step_def virusFuse_def)
    have "timer_shape ?s1"
      using e by (simp add: timer_shape_def)
    from rerun_inv [OF this, of fz] e False
    have r: "timer_ok (rerunEffect fz ?s1)" "tiers_ok fz (rerunEffect fz ?s1)"
      "virusIndex (rerunEffect fz ?s1) = idx"
      by simp_all
    show ?thesis
      unfolding st using r False by (intro session_inv_loaded) simp_all
  qed
qed

lemma session_inv_step:
  assumes "session_inv fz s"
  shows "session_inv fz (step fz ev s)"
proof (cases ev)
  case (LightLoaded idx)
  then show ?thesis using session_inv_LightLoaded [OF assms] by simp
next
  case LightFailed
  have "session_inv fz (s\<lparr>consoleErrors := Suc (consoleErrors s), loading := False\<rparr>)"
    by (rule session_inv_frame [OF assms]; simp)
  with LightFailed assms show ?thesis
    by (simp add: step_def)
next
  case (Change v)
  have "session_inv fz ((setQuery fz v s)\<lparr>isOpen := True\<rparr>)"
    by (rule session_inv_frame [OF session_inv_setQuery [OF assms, of v]]; simp)
  with Change assms show ?thesis
    by (simp add: step_def)
next
  case Focus
  have "session_inv fz (s\<lparr>isOpen := True\<rparr>)"
    by (rule session_inv_frame [OF assms]; simp)
  with Focus assms show ?thesis
    by (simp add: step_def)
next
  case (KeyDown key)
  with assms session_inv_handleKeyDown [OF assms] show ?thesis
    by (simp add: step_def)
next
  case MouseDownOutside
  have "session_inv fz (s\<lparr>isOpen := False\<rparr>)"
    by (rule session_inv_frame [OF assms]; simp)
  with MouseDownOutside show ?thesis
    by (simp add: step_def)
next
  case (Click i)
  with assms session_inv_selectResult [OF assms] show ?thesis
    by (simp add: step_def)
next
  case (Timeout h)
  then show ?thesis using session_inv_Timeout [OF assms] by simp
next
  case (DeepLoaded n ps)
  then show ?thesis using session_inv_DeepLoaded [OF assms] by simp
next
  case (DeepFailed n)
  then show ?thesis using session_inv_DeepFailed [OF assms] by simp
qed

lemma session_inv_mounted: "session_inv fz mounted"
  by (simp add: session_inv_def timer_ok_def unloaded_ok_def tiers_ok_nil mounted_def)

lemma session_inv_run_from: "session_inv fz s \<Longrightarrow> session_inv fz (run fz s evs)"
  by (induction evs arbitrary: s) (simp_all add: session_inv_step)

lemma session_inv_run: "session_inv fz (run fz mounted evs)"
  by (rule session_inv_run_from [OF session_inv_mounted])

section \<open>Steps of a session\<close>

lemma queryEffect_keeps [simp]:
  "virusIndex (queryEffect fz s) = virusIndex s"
  "loading (queryEffect fz s) = loading s"
  "query (queryEffect fz s) = query s"
  "pending (queryEffect fz s) = pending s"
  "fetched (queryEffect fz s) = fetched s"
  "isDeepSearching (queryEffect fz s) = isDeepSearching s"
  "uncaught (queryEffect fz s) = uncaught s"
  by (simp_all add: queryEffect_def Let_def split: option.splits)

lemma setQuery_keeps [simp]:
  "virusIndex (setQuery fz v s) = virusIndex s"
  "loading (setQuery fz v s) = loading s"
  "pending (setQuery fz v s) = pending s"
  "fetched (setQuery fz v s) = fetched s"
  by (simp_all add: setQuery_def rerunEffect_def)

lemma selectResult_keeps [simp]:
  "virusIndex (selectResult fz r s) = virusIndex s"
  "loading (selectResult fz r s) = loading s"
  "pending (selectResult fz r s) = pending s"
  "fetched (selectResult fz r s) = fetched s"
  by (simp_all add: selectResult_def Let_def split: option.splits)

lemma handleKeyDown_keeps [simp]:
  "virusIndex (handleKeyDown fz key s) = virusIndex s"
  "loading (handleKeyDown fz key s) = loading s"
  "pending (handleKeyDown fz key s) = pending s"
  "fetched (handleKeyDown fz key s) = fetched s"
  by (simp_all add: handleKeyDown_def)

text \<open>Once the load has settled with an empty index, the index stays empty.\<close>

lemma unloaded_step:
  assumes "\<not> loading s" and "virusIndex s = []"
  shows "\<not> loading (step fz ev s) \<and> virusIndex (step fz ev s) = []"
  using assms
  by (cases ev)
     (simp_all add: step_def deepSearch_def clearTimeout_def deepSearchResolved_def
        deepSearchFailed_def Let_def split: option.splits)

lemma unloaded_run:
  assumes "\<not> loading s" and "virusIndex s = []"
  shows "\<not> loading (run fz s evs) \<and> virusIndex (run fz s evs) = []"
  using assms
  by (induction evs arbitrary: s) (simp_all add: unloaded_step)

text \<open>A keystroke that changes the query of a session: the cleanup leaves no timeout
  pending, then the effect runs on the new query.\<close>

lemma change_step:
  assumes "session_inv fz s" and "\<not> loading s" and "v \<noteq> query s"
  shows "step fz (Change v) s = (queryEffect fz (queryCleanup (s\<lparr>query := v\<rparr>)))\<lparr>isOpen := True\<rparr>"
    and "timers (queryCleanup (s\<lparr>query := v\<rparr>)) = []"
proof -
  show "step fz (Change v) s = (queryEffect fz (queryCleanup (s\<lparr>query := v\<rparr>)))\<lparr>isOpen := True\<rparr>"
    using assms(2,3) by (simp add: step_def setQuery_def rerunEffect_def)
  have "timer_shape (s\<lparr>query := v\<rparr>)"
    using assms(1) by (auto simp: session_inv_def timer_ok_def timer_shape_def)
  then show "timers (queryCleanup (s\<lparr>query := v\<rparr>)) = []"
    by (rule queryCleanup_timers)
qed

lemma timeout_step:
  assumes "timers s = [(h, d, q)]" and "3 \<le> length q"
  shows "step fz (Timeout h) s =
           s\<lparr>timers := [], isDeepSearching := True,
             fetched := fetched s @ [''search-index.json''],
             pending := pending s @ [(nextRequest s, q)],
             nextRequest := Suc (nextRequest s)\<rparr>"
  using assms by (simp add: step_def deepSearch_def clearTimeout_def)

section \<open>Late deep results\<close>

text \<open>
  C1, as the claim states it, fails: a deep fetch issued for \<open>spike\<close> resolves after
  the input was cleared, and \<open>results\<close>, empty until then, receives its protein match.
\<close>

theorem stale_deep_results_applied:
  "query session_in_flight = [] \<and> results session_in_flight = []
   \<and> map_of (pending session_in_flight) 0 = Some ''spike''
   \<and> query session_stale = []
   \<and> results session_stale =
       [\<lparr>r_type = Protein, r_id = ''p1'', r_name = ''spike'',
         r_virusId = Some ''v1'', r_virusName = Some ''SARS''\<rparr>]"
  unfolding session_stale_def session_in_flight_def by code_simp

text \<open>
  C1, amended.  When a deep fetch resolves, the component does not compare the query of
  the request with the current query: whatever the current query is, the empty one
  included, \<open>results\<close> becomes its first four virus entries followed by the protein
  matches of the query the request was issued for.  From empty \<open>results\<close> it becomes
  exactly those protein matches.
\<close>

theorem deep_results_merged_whatever_query:
  assumes "map_of (pending s) n = Some q"
  shows "results (step fz (DeepLoaded n proteins) s)
           = take 4 (filter (\<lambda>r. r_type r = Virus) (results s))
             @ map proteinResult (proteinSearch fz proteins q)
       \<and> query (step fz (DeepLoaded n proteins) s) = query s
       \<and> (results s = [] \<longrightarrow>
            results (step fz (DeepLoaded n proteins) s)
              = map proteinResult (proteinSearch fz proteins q))"
  using assms by (simp add: step_def deepSearchResolved_def Let_def)

theorem deep_results_merged_whatever_query_witness:
  "map_of (pending session_in_flight) 0 = Some ''spike''
   \<and> query session_in_flight = [] \<and> results session_in_flight = []
   \<and> results (step exact (DeepLoaded 0 [p_spike]) session_in_flight)
       = map proteinResult (proteinSearch exact [p_spike] ''spike'')
   \<and> map proteinResult (proteinSearch exact [p_spike] ''spike'') \<noteq> []"
proof -
  have h: "map_of (pending session_in_flight) 0 = Some ''spike''"
    unfolding session_in_flight_def by code_simp
  have e: "query session_in_flight = []" "results session_in_flight = []"
    unfolding session_in_flight_def by code_simp+
  have p: "map proteinResult (proteinSearch exact [p_spike] ''spike'') \<noteq> []"
    by code_simp
  show ?thesis
    using h e p deep_results_merged_whatever_query [OF h, of exact "[p_spike]"] by simp
qed

section \<open>Fetches of the deep index\<close>

text \<open>
  C2, as the claim states it, fails: two queries reach the threshold one after the
  other, the first fetch succeeds, and the deep index is fetched twice.
\<close>

theorem deep_index_fetched_twice:
  "fetched session_two_deep
     = [''search-viruses.json'', ''search-index.json'', ''search-index.json'']"
  unfolding session_two_deep_def by code_simp

text \<open>
  C2, amended.  The component keeps no copy of the deep index and does not go through
  \<open>fetchJson\<close>: in every session, every pending debounce timeout that fires issues one
  more fetch of the deep index, whatever was fetched before.
\<close>

theorem every_deep_search_fetches:
  assumes "(h, d, q) \<in> set (timers (run fz mounted evs))"
  shows "fetched (step fz (Timeout h) (run fz mounted evs))
           = fetched (run fz mounted evs) @ [''search-index.json'']
       \<and> pending (step fz (Timeout h) (run fz mounted evs))
           = pending (run fz mounted evs) @ [(nextRequest (run fz mounted evs), q)]"
proof -
  let ?s = "run fz mounted evs"
  have i: "session_inv fz ?s"
    by (rule session_inv_run)
  from assms have "timers ?s \<noteq> []" by auto
  with i obtain h' where t: "timers ?s = [(h', 300, query ?s)]" and l: "3 \<le> length (query ?s)"
    by (auto simp: session_inv_def timer_ok_def)
  from assms t have "h = h'" "q = query ?s" by simp_all
  with t l show ?thesis
    by (simp add: timeout_step)
qed

theorem every_deep_search_fetches_witness:
  "(1, 300, ''spike'') \<in> set (timers (run exact mounted [LightLoaded [v_spike], Change ''spike'']))
   \<and> fetched (run exact mounted [LightLoaded [v_spike], Change ''spike''])
       = [''search-viruses.json'']
   \<and> fetched (step exact (Timeout 1)
        (run exact mounted [LightLoaded [v_spike], Change ''spike'']))
       = [''search-viruses.json'', ''search-index.json'']"
proof -
  have h: "(1, 300, ''spike'')
      \<in> set (timers (run exact mounted [LightLoaded [v_spike], Change ''spike'']))"
    by code_simp
  have e: "fetched (run exact mounted [LightLoaded [v_spike], Change ''spike''])
       = [''search-viruses.json'']"
    by code_simp
  show ?thesis
    using h e every_deep_search_fetches [OF h] by simp
qed

section \<open>The selected index after a deep merge\<close>

text \<open>
  C3 at a failing session: five viruses match, the user moves the selection to the
  fifth entry, and the deep search resolves with no protein match.  The merge keeps
  four entries and leaves \<open>selectedIndex\<close> at 4, outside the list; Enter then reads
  \<open>results[4]\<close>, which is undefined, and the handler throws without navigating.
\<close>

theorem deep_merge_leaves_selectedIndex:
  "selectedIndex session_five = 4 \<and> length (results session_five) = 5
   \<and> selectedIndex session_shrunk = 4 \<and> length (results session_shrunk) = 4
   \<and> uncaught session_shrunk = 0
   \<and> uncaught (step exact (KeyDown ''Enter'') session_shrunk) = 1
   \<and> navigated (step exact (KeyDown ''Enter'') session_shrunk) = []"
  unfolding session_shrunk_def session_five_def by code_simp

section \<open>A failed load of the light index\<close>

text \<open>
  C4, as the claim states it, fails: after the light index failed to load, a query of
  five characters schedules no deep search.
\<close>

theorem light_failure_no_deep_search:
  "\<not> loading session_light_failed \<and> query session_light_failed = ''spike''
   \<and> timers session_light_failed = [] \<and> pending session_light_failed = []
   \<and> fetched session_light_failed = [''search-viruses.json'']
   \<and> results session_light_failed = []"
  unfolding session_light_failed_def by code_simp

text \<open>
  C4, amended.  If the light index fails to load, the light tier returns nothing for
  the rest of the session, and the guard of the query effect (no virus index) also
  keeps every deep search from being scheduled: whatever happens afterwards,
  \<open>results\<close> stays empty, no timeout is pending, no deep fetch is in flight, and the
  only resource ever fetched is the light index.
\<close>

theorem light_failure_blocks_all_search:
  "virusIndex (run fz mounted (LightFailed # evs)) = []
   \<and> results (run fz mounted (LightFailed # evs)) = []
   \<and> timers (run fz mounted (LightFailed # evs)) = []
   \<and> pending (run fz mounted (LightFailed # evs)) = []
   \<and> fetched (run fz mounted (LightFailed # evs)) = [''search-viruses.json'']"
proof -
  let ?s0 = "step fz LightFailed mounted"
  have "\<not> loading ?s0" and "virusIndex ?s0 = []"
    by (simp_all add: step_def mounted_def)
  then have v: "virusIndex (run fz ?s0 evs) = []"
    using unloaded_run by blast
  have "session_inv fz (run fz mounted (LightFailed # evs))"
    by (rule session_inv_run)
  with v show ?thesis
    by (simp add: session_inv_def unloaded_ok_def)
qed

section \<open>Debounce\<close>

text \<open>
  C5, as the claim states it, fails: the light index loaded, but empty, so there is no
  virus index, and a query of five characters schedules no deep search.
\<close>

theorem empty_light_index_no_debounce:
  "\<not> loading session_light_empty \<and> virusIndex session_light_empty = []
   \<and> query session_light_empty = ''spike'' \<and> timers session_light_empty = []"
  unfolding session_light_empty_def by code_simp

text \<open>
  C5, amended.  In a session whose light index has loaded with at least one entry, a
  keystroke that changes the query to one of length at least 3 leaves exactly one
  timeout pending, with delay 300 ms and the new query: a timeout pending before is
  cancelled, and no fetch is issued yet.  When that timeout fires, one deep search
  starts, for the new query, with one fetch of the deep index.
\<close>

theorem debounce_reschedules:
  assumes "virusIndex (run fz mounted evs) \<noteq> []"
    and "3 \<le> length v" and "v \<noteq> query (run fz mounted evs)"
  shows "timers (step fz (Change v) (run fz mounted evs))
           = [(nextHandle (run fz mounted evs), 300, v)]
       \<and> fetched (step fz (Change v) (run fz mounted evs)) = fetched (run fz mounted evs)
       \<and> pending (step fz (Change v) (run fz mounted evs)) = pending (run fz mounted evs)
       \<and> timers (step fz (Timeout (nextHandle (run fz mounted evs)))
            (step fz (Change v) (run fz mounted evs))) = []
       \<and> fetched (step fz (Timeout (nextHandle (run fz mounted evs)))
            (step fz (Change v) (run fz mounted evs)))
           = fetched (run fz mounted evs) @ [''search-index.json'']
       \<and> pending (step fz (Timeout (nextHandle (run fz mounted evs)))
            (step fz (Change v) (run fz mounted evs)))
           = pending (run fz mounted evs) @ [(nextRequest (run fz mounted evs), v)]"
proof -
  let ?s = "run fz mounted evs"
  let ?c = "queryCleanup (?s\<lparr>query := v\<rparr>)"
  have i: "session_inv fz ?s"
    by (rule session_inv_run)
  then have l: "\<not> loading ?s"
    using assms(1) by (auto simp: session_inv_def unloaded_ok_def)
  have st: "step fz (Change v) ?s = (queryEffect fz ?c)\<lparr>isOpen := True\<rparr>"
    and t: "timers ?c = []"
    using change_step [OF i l assms(3)] by simp_all
  have "queryEffect fz ?c =
           ?c\<lparr>results := map virusResult (virusSearch fz (virusIndex ?c) (query ?c)),
             selectedIndex := 0,
             deepSearchRef := Some (nextHandle ?c),
             timers := [(nextHandle ?c, 300, query ?c)],
             nextHandle := Suc (nextHandle ?c),
             effectCleanup := True\<rparr>"
    using assms(1,2) t by (intro queryEffect_deep) simp_all
  then have a: "timers (step fz (Change v) ?s) = [(nextHandle ?s, 300, v)]"
    and b: "fetched (step fz (Change v) ?s) = fetched ?s"
      "pending (step fz (Change v) ?s) = pending ?s"
      "nextRequest (step fz (Change v) ?s) = nextRequest ?s"
    unfolding st by simp_all
  from timeout_step [OF a assms(2), of fz] a b show ?thesis
    by simp
qed

theorem debounce_reschedules_witness:
  "virusIndex session_typed \<noteq> [] \<and> query session_typed = ''spike''
   \<and> timers session_typed = [(1, 300, ''spike'')] \<and> nextHandle session_typed = 2
   \<and> timers (step exact (Change ''spikes'') session_typed) = [(2, 300, ''spikes'')]
   \<and> fetched (step exact (Timeout 2) (step exact (Change ''spikes'') session_typed))
       = [''search-viruses.json'', ''search-index.json'']"
proof -
  have h1: "virusIndex (run exact mounted [LightLoaded [v_spike], Change ''spike'']) \<noteq> []"
    by code_simp
  have h2: "3 \<le> length ''spikes''"
    by simp
  have h3: "''spikes'' \<noteq> query (run exact mounted [LightLoaded [v_spike], Change ''spike''])"
    by code_simp
  have e: "query session_typed = ''spike''" "timers session_typed = [(1, 300, ''spike'')]"
    "nextHandle session_typed = 2" "fetched session_typed = [''search-viruses.json'']"
    unfolding session_typed_def by code_simp+
  show ?thesis
    using h1 e debounce_reschedules [OF h1 h2 h3]
    unfolding session_typed_def [symmetric] by simp
qed

section \<open>Short queries\<close>

lemma short_ok_queryEffect: "short_ok (queryEffect fz s)"
  by (simp add: short_ok_def queryEffect_def Let_def split: option.splits)

lemma short_ok_setQuery: "short_ok s \<Longrightarrow> short_ok (setQuery fz v s)"
  by (simp add: setQuery_def rerunEffect_def short_ok_queryEffect)

lemma short_ok_selectResult:
  assumes "short_ok s"
  shows "short_ok (selectResult fz r s)"
proof -
  have "short_ok (setQuery fz [] s)"
    using assms by (rule short_ok_setQuery)
  then show ?thesis
    by (cases r) (simp_all add: selectResult_def Let_def short_ok_def)
qed

lemma short_ok_handleKeyDown:
  assumes "short_ok s"
  shows "short_ok (handleKeyDown fz key s)"
proof -
  have a: "short_ok (s\<lparr>selectedIndex := i\<rparr>)" for i
    using assms by (simp add: short_ok_def)
  have b: "short_ok (s\<lparr>isOpen := False\<rparr>)"
    using assms by (simp add: short_ok_def)
  show ?thesis
    unfolding handleKeyDown_def
    using a b assms short_ok_selectResult [OF assms] by simp
qed

lemma filter_virus_proteins:
  "filter (\<lambda>r. r_type r = Virus) (map proteinResult ps) = []"
  by (simp add: filter_empty_conv proteinResult_def)

lemma short_ok_step:
  assumes "short_ok s"
  shows "short_ok (step fz ev s)"
proof (cases ev)
  case (LightLoaded idx)
  have "short_ok ((rerunEffect fz (s\<lparr>virusIndex := idx\<rparr>))\<lparr>loading := False\<rparr>)"
    using short_ok_queryEffect [of fz "queryCleanup (s\<lparr>virusIndex := idx\<rparr>)"]
    by (simp add: short_ok_def rerunEffect_def)
  moreover have "short_ok (s\<lparr>virusIndex := idx, loading := False\<rparr>)"
    using assms by (simp add: short_ok_def)
  ultimately show ?thesis
    using LightLoaded assms by (simp add: step_def Let_def)
next
  case LightFailed
  with assms show ?thesis by (simp add: step_def short_ok_def)
next
  case (Change v)
  have "short_ok ((setQuery fz v s)\<lparr>isOpen := True\<rparr>)"
    using short_ok_setQuery [OF assms, of fz v] by (simp add: short_ok_def)
  with Change assms show ?thesis by (simp add: step_def)
next
  case Focus
  with assms show ?thesis by (simp add: step_def short_ok_def)
next
  case (KeyDown key)
  with assms short_ok_handleKeyDown [OF assms] show ?thesis by (simp add: step_def)
next
  case MouseDownOutside
  with assms show ?thesis by (simp add: step_def short_ok_def)
next
  case (Click i)
  with assms short_ok_selectResult [OF assms] show ?thesis by (simp add: step_def)
next
  case (Timeout h)
  with assms show ?thesis
    by (simp add: step_def short_ok_def deepSearch_def clearTimeout_def split: option.splits)
next
  case (DeepLoaded n ps)
  with assms show ?thesis
    by (simp add: step_def short_ok_def deepSearchResolved_def Let_def filter_virus_proteins
        split: option.splits)
next
  case (DeepFailed n)
  with assms show ?thesis
    by (simp add: step_def short_ok_def deepSearchFailed_def split: option.splits)
qed

lemma short_ok_run_from: "short_ok s \<Longrightarrow> short_ok (run fz s evs)"
  by (induction evs arbitrary: s) (simp_all add: short_ok_step)

lemma short_ok_run: "short_ok (run fz mounted evs)"
  by (rule short_ok_run_from) (simp add: short_ok_def mounted_def)

text \<open>With the query short before and after an event other than the arrival of a deep
  index, empty \<open>results\<close> stays empty.\<close>

lemma short_results_stay_empty:
  assumes "results s = []" and "length (query (step fz ev s)) < 2"
    and "\<forall>n ps. ev \<noteq> DeepLoaded n ps"
  shows "results (step fz ev s) = []"
proof (cases ev)
  case (LightLoaded idx)
  have q: "query (rerunEffect fz (s\<lparr>virusIndex := idx\<rparr>)) = query s"
    by (simp add: rerunEffect_def)
  have "length (query s) < 2 \<Longrightarrow> results (rerunEffect fz (s\<lparr>virusIndex := idx\<rparr>)) = []"
    by (simp add: rerunEffect_def queryEffect_short)
  with assms(1,2) LightLoaded q show ?thesis
    by (simp add: step_def Let_def split: if_splits)
next
  case LightFailed
  with assms show ?thesis by (simp add: step_def)
next
  case (Change v)
  have "v \<noteq> query s \<Longrightarrow> length v < 2 \<Longrightarrow> results (setQuery fz v s) = []"
    by (simp add: setQuery_def rerunEffect_def queryEffect_short)
  moreover have "v \<noteq> query s \<Longrightarrow> query (setQuery fz v s) = v"
    by (simp add: setQuery_def rerunEffect_def)
  moreover have "v = query s \<Longrightarrow> setQuery fz v s = s"
    by (simp add: setQuery_def)
  ultimately show ?thesis
    using assms(1,2) Change by (cases "v = query s") (simp_all add: step_def split: if_splits)
next
  case Focus
  with assms show ?thesis by (simp add: step_def)
next
  case (KeyDown key)
  with assms show ?thesis by (simp add: step_def handleKeyDown_def)
next
  case MouseDownOutside
  with assms show ?thesis by (simp add: step_def)
next
  case (Click i)
  with assms show ?thesis by (simp add: step_def)
next
  case (Timeout h)
  with assms show ?thesis
    by (simp add: step_def deepSearch_def clearTimeout_def split: option.splits)
next
  case (DeepLoaded n ps)
  with assms(3) show ?thesis by simp
next
  case (DeepFailed n)
  with assms show ?thesis
    by (simp add: step_def deepSearchFailed_def split: option.splits)
qed

text \<open>Only a timeout that fires issues a fetch.\<close>

lemma fetched_step:
  assumes "timers s = []"
  shows "fetched (step fz ev s) = fetched s"
  using assms
  by (cases ev)
     (simp_all add: step_def Let_def deepSearchResolved_def deepSearchFailed_def
        rerunEffect_def split: option.splits)

text \<open>
  C7, as the claim states it, fails: a deep fetch issued for \<open>spike\<close> is in flight when
  the query becomes \<open>s\<close>; when it resolves, the query has length 1 and \<open>results\<close>
  is not empty.
\<close>

theorem short_query_late_deep_results:
  "query session_short_stale = ''s''
   \<and> results session_short_stale =
       [\<lparr>r_type = Protein, r_id = ''p1'', r_name = ''spike'',
         r_virusId = Some ''v1'', r_virusName = Some ''SARS''\<rparr>]"
  unfolding session_short_stale_def by code_simp

text \<open>
  C7, amended.  In every session: a keystroke that changes the query to one of length
  below 2 leaves \<open>results\<close> empty and no timeout pending, issues no fetch and starts
  no deep search.  While the query is that short, no timeout is pending, no event
  issues a fetch, and \<open>results\<close> holds no virus entry; empty \<open>results\<close> stays empty
  under every event that keeps the query short, except the arrival of a deep index
  fetched for an earlier, longer query, whose protein matches are merged in.
\<close>

theorem short_query_clears_results:
  "(length v < 2 \<and> v \<noteq> query (run fz mounted evs) \<longrightarrow>
      results (step fz (Change v) (run fz mounted evs)) = []
    \<and> timers (step fz (Change v) (run fz mounted evs)) = []
    \<and> fetched (step fz (Change v) (run fz mounted evs)) = fetched (run fz mounted evs)
    \<and> pending (step fz (Change v) (run fz mounted evs)) = pending (run fz mounted evs)
    \<and> (\<not> loading (run fz mounted evs) \<longrightarrow>
         query (step fz (Change v) (run fz mounted evs)) = v))
   \<and> (length (query (run fz mounted evs)) < 2 \<longrightarrow>
        timers (run fz mounted evs) = []
      \<and> filter (\<lambda>r. r_type r = Virus) (results (run fz mounted evs)) = []
      \<and> fetched (step fz ev (run fz mounted evs)) = fetched (run fz mounted evs))
   \<and> (length (query (run fz mounted evs)) < 2 \<and> results (run fz mounted evs) = []
      \<and> length (query (step fz ev (run fz mounted evs))) < 2
      \<and> (\<forall>n ps. ev \<noteq> DeepLoaded n ps) \<longrightarrow>
        results (step fz ev (run fz mounted evs)) = [])
   \<and> results mounted = [] \<and> query mounted = []"
proof -
  let ?s = "run fz mounted evs"
  let ?c = "queryCleanup (?s\<lparr>query := v\<rparr>)"
  have i: "session_inv fz ?s"
    by (rule session_inv_run)
  have a: "results (step fz (Change v) ?s) = []
    \<and> timers (step fz (Change v) ?s) = []
    \<and> fetched (step fz (Change v) ?s) = fetched ?s
    \<and> pending (step fz (Change v) ?s) = pending ?s
    \<and> (\<not> loading ?s \<longrightarrow> query (step fz (Change v) ?s) = v)"
    if v: "length v < 2" "v \<noteq> query ?s"
  proof (cases "loading ?s")
    case True
    with i have "results ?s = []" "timers ?s = []"
      by (auto simp: session_inv_def unloaded_ok_def)
    with True show ?thesis
      by (simp add: step_def)
  next
    case False
    have st: "step fz (Change v) ?s = (queryEffect fz ?c)\<lparr>isOpen := True\<rparr>"
      and t: "timers ?c = []"
      using change_step [OF i False v(2)] by simp_all
    have "queryEffect fz ?c = ?c\<lparr>results := [], effectCleanup := False\<rparr>"
      using v(1) by (intro queryEffect_short) simp
    then show ?thesis
      unfolding st using t by simp
  qed
  have b: "timers ?s = [] \<and> filter (\<lambda>r. r_type r = Virus) (results ?s) = []
      \<and> fetched (step fz ev ?s) = fetched ?s"
    if q: "length (query ?s) < 2"
  proof -
    have t: "timers ?s = []"
      using i q by (auto simp: session_inv_def timer_ok_def)
    moreover have "filter (\<lambda>r. r_type r = Virus) (results ?s) = []"
      using short_ok_run [of fz evs] q by (simp add: short_ok_def)
    moreover have "fetched (step fz ev ?s) = fetched ?s"
      using t by (rule fetched_step)
    ultimately show ?thesis by simp
  qed
  have c: "results (step fz ev ?s) = []"
    if "results ?s = []" "length (query (step fz ev ?s)) < 2" "\<forall>n ps. ev \<noteq> DeepLoaded n ps"
    using that by (rule short_results_stay_empty)
  have d: "results mounted = [] \<and> query mounted = []"
    by (simp add: mounted_def)
  from a b c d show ?thesis
    by blast
qed

theorem short_query_clears_results_witness:
  "length ''s'' < 2 \<and> query session_typed = ''spike'' \<and> results session_typed \<noteq> []
   \<and> timers session_typed \<noteq> []
   \<and> results (step exact (Change ''s'') session_typed) = []
   \<and> timers (step exact (Change ''s'') session_typed) = []
   \<and> fetched (step exact (Change ''s'') session_typed) = fetched session_typed
   \<and> query session_short = ''s'' \<and> results session_short = []
   \<and> timers session_short = []
   \<and> fetched (step exact (Timeout 1) session_short) = fetched session_short
   \<and> query (step exact (Change []) session_short) = []
   \<and> results (step exact (Change []) session_short) = []"
proof -
  have h1: "length ''s'' < 2"
    by simp
  have h2: "''s'' \<noteq> query (run exact mounted [LightLoaded [v_spike], Change ''spike''])"
    by code_simp
  have e: "query session_typed = ''spike''" "results session_typed \<noteq> []"
    "timers session_typed \<noteq> []"
    unfolding session_typed_def by code_simp+
  have g: "query session_short = ''s''" "results session_short = []"
    "query (step exact (Change []) session_short) = []"
    unfolding session_short_def by code_simp+
  have n: "\<forall>n ps. Change [] \<noteq> DeepLoaded n ps"
    by simp
  have p1: "results (step exact (Change ''s'') session_typed) = []
     \<and> timers (step exact (Change ''s'') session_typed) = []
     \<and> fetched (step exact (Change ''s'') session_typed) = fetched session_typed"
    using h1 h2
      short_query_clears_results [of "''s''" exact "[LightLoaded [v_spike], Change ''spike'']"]
    unfolding session_typed_def [symmetric] by simp
  have p2: "timers session_short = []
     \<and> fetched (step exact (Timeout 1) session_short) = fetched session_short"
    using g
      short_query_clears_results [of _ exact
        "[LightLoaded [v_spike], Change ''spike'', Change ''s'']" "Timeout 1"]
    unfolding session_short_def [symmetric] by simp
  have p3: "results (step exact (Change []) session_short) = []"
    using g n
      short_query_clears_results [of _ exact
        "[LightLoaded [v_spike], Change ''spike'', Change ''s'']" "Change []"]
    unfolding session_short_def [symmetric] by simp
  from h1 e g p1 p2 p3 show ?thesis
    by simp
qed

section \<open>A failed deep search\<close>

text \<open>
  C8.  When a deep fetch in flight fails, the exception is caught: nothing escapes,
  the failure is logged, \<open>results\<close> is unchanged (so the virus entries stay, and the
  failed query adds no protein entry), and \<open>isDeepSearching\<close> becomes false.
\<close>

theorem deep_failure_keeps_results:
  assumes "map_of (pending s) n = Some q"
  shows "results (step fz (DeepFailed n) s) = results s
       \<and> \<not> isDeepSearching (step fz (DeepFailed n) s)
       \<and> uncaught (step fz (DeepFailed n) s) = uncaught s
       \<and> consoleErrors (step fz (DeepFailed n) s) = Suc (consoleErrors s)
       \<and> map_of (pending (step fz (DeepFailed n) s)) n = None"
proof -
  have "map_of (filter (\<lambda>p. fst p \<noteq> n) (pending s)) n = None"
    by (induction "pending s") (auto simp: map_of_eq_None_iff)
  with assms show ?thesis
    by (simp add: step_def deepSearchFailed_def)
qed

theorem deep_failure_keeps_results_witness:
  "map_of (pending (step exact (Timeout 1) session_typed)) 0 = Some ''spike''
   \<and> isDeepSearching (step exact (Timeout 1) session_typed)
   \<and> results (step exact (DeepFailed 0) (step exact (Timeout 1) session_typed))
       = [\<lparr>r_type = Virus, r_id = ''v1'', r_name = ''spike'',
           r_virusId = None, r_virusName = None\<rparr>]
   \<and> \<not> isDeepSearching (step exact (DeepFailed 0) (step exact (Timeout 1) session_typed))
   \<and> uncaught (step exact (DeepFailed 0) (step exact (Timeout 1) session_typed)) = 0"
proof -
  have h: "map_of (pending (step exact (Timeout 1) session_typed)) 0 = Some ''spike''"
    unfolding session_typed_def by code_simp
  have e: "isDeepSearching (step exact (Timeout 1) session_typed)"
    "results (step exact (Timeout 1) session_typed)
       = [\<lparr>r_type = Virus, r_id = ''v1'', r_name = ''spike'',
           r_virusId = None, r_virusName = None\<rparr>]"
    "uncaught (step exact (Timeout 1) session_typed) = 0"
    unfolding session_typed_def by code_simp+
  show ?thesis
    using h e deep_failure_keeps_results [OF h, of exact] by simp
qed

section \<open>Order of the merged results\<close>

text \<open>
  C6.  In every session, \<open>results\<close> is a list of virus entries followed by a list of
  protein entries.  The virus entries are the first hits of one search of the virus
  index and the protein entries are the hits of one search of a protein index, each
  tier for the query it was computed for; within each tier the hits are in ascending
  order of score, hits of equal score in the order of their positions in the index
  searched.
\<close>

theorem results_tiered_and_ranked:
  "\<exists>vs ps k qv idx qp.
      results (run fz mounted evs) = map virusResult vs @ map proteinResult ps
    \<and> vs = take k (virusSearch fz (virusIndex (run fz mounted evs)) qv)
    \<and> ps = proteinSearch fz idx qp
    \<and> ranked vs \<and> ranked ps
    \<and> (\<forall>r\<in>set (map virusResult vs). r_type r = Virus)
    \<and> (\<forall>r\<in>set (map proteinResult ps). r_type r = Protein)
    \<and> (\<forall>h\<in>set vs. refIndex h < length (virusIndex (run fz mounted evs))
          \<and> item h = virusIndex (run fz mounted evs) ! refIndex h
          \<and> score h = fz qv [v_name (item h), v_id (item h)])
    \<and> (\<forall>h\<in>set ps. refIndex h < length idx \<and> item h = idx ! refIndex h
          \<and> score h = fz qp [p_name (item h), p_id (item h), p_virusName (item h)])"
proof -
  let ?s = "run fz mounted evs"
  have "session_inv fz ?s"
    by (rule session_inv_run)
  then obtain k qv idx qp where
    r: "results ?s = map virusResult (take k (virusSearch fz (virusIndex ?s) qv))
                   @ map proteinResult (proteinSearch fz idx qp)"
    unfolding session_inv_def tiers_ok_def by blast
  let ?vs = "take k (virusSearch fz (virusIndex ?s) qv)"
  let ?ps = "proteinSearch fz idx qp"
  have "ranked (virusSearch fz (virusIndex ?s) qv)"
    unfolding virusSearch_def by (rule ranked_fuse_search)
  then have rv: "ranked ?vs"
    unfolding ranked_def by (rule sorted_wrt_take)
  have rp: "ranked ?ps"
    unfolding proteinSearch_def by (rule ranked_fuse_search)
  have tv: "\<forall>r\<in>set (map virusResult ?vs). r_type r = Virus"
    by (auto simp: virusResult_def)
  have tp: "\<forall>r\<in>set (map proteinResult ?ps). r_type r = Protein"
    by (auto simp: proteinResult_def)
  have hv: "\<forall>h\<in>set ?vs. refIndex h < length (virusIndex ?s)
          \<and> item h = virusIndex ?s ! refIndex h
          \<and> score h = fz qv [v_name (item h), v_id (item h)]"
  proof
    fix h assume "h \<in> set ?vs"
    then have "h \<in> set (fuse_search fz (3 / 10) (\<lambda>v. [v_name v, v_id v]) (virusIndex ?s) qv 5)"
      unfolding virusSearch_def by (rule in_set_takeD)
    from fuse_search_hit [OF this]
    show "refIndex h < length (virusIndex ?s) \<and> item h = virusIndex ?s ! refIndex h
          \<and> score h = fz qv [v_name (item h), v_id (item h)]"
      by simp
  qed
  have hp: "\<forall>h\<in>set ?ps. refIndex h < length idx \<and> item h = idx ! refIndex h
          \<and> score h = fz qp [p_name (item h), p_id (item h), p_virusName (item h)]"
  proof
    fix h assume "h \<in> set ?ps"
    then have "h \<in> set (fuse_search fz (3 / 10)
        (\<lambda>p. [p_name p, p_id p, p_virusName p]) idx qp 8)"
      unfolding proteinSearch_def .
    from fuse_search_hit [OF this]
    show "refIndex h < length idx \<and> item h = idx ! refIndex h
          \<and> score h = fz qp [p_name (item h), p_id (item h), p_virusName (item h)]"
      by simp
  qed
  from r rv rp tv tp hv hp show ?thesis
    by blast
qed

theorem results_tiered_and_ranked_witness:
  "results session_merged
     = [\<lparr>r_type = Virus, r_id = ''v1'', r_name = ''spike'', r_virusId = None, r_virusName = None\<rparr>,
        \<lparr>r_type = Protein, r_id = ''p1'', r_name = ''spike'',
         r_virusId = Some ''v1'', r_virusName = Some ''SARS''\<rparr>]
   \<and> (\<exists>vs ps k qv idx qp.
      results session_merged = map virusResult vs @ map proteinResult ps
    \<and> vs = take k (virusSearch exact (virusIndex session_merged) qv)
    \<and> ps = proteinSearch exact idx qp
    \<and> ranked vs \<and> ranked ps
    \<and> (\<forall>r\<in>set (map virusResult vs). r_type r = Virus)
    \<and> (\<forall>r\<in>set (map proteinResult ps). r_type r = Protein)
    \<and> (\<forall>h\<in>set vs. refIndex h < length (virusIndex session_merged)
          \<and> item h = virusIndex session_merged ! refIndex h
          \<and> score h = exact qv [v_name (item h), v_id (item h)])
    \<and> (\<forall>h\<in>set ps. refIndex h < length idx \<and> item h = idx ! refIndex h
          \<and> score h = exact qp [p_name (item h), p_id (item h), p_virusName (item h)]))"
proof (rule conjI)
  show "results session_merged
     = [\<lparr>r_type = Virus, r_id = ''v1'', r_name = ''spike'', r_virusId = None, r_virusName = None\<rparr>,
        \<lparr>r_type = Protein, r_id = ''p1'', r_name = ''spike'',
         r_virusId = Some ''v1'', r_virusName = Some ''SARS''\<rparr>]"
    unfolding session_merged_def by code_simp
next
  show "\<exists>vs ps k qv idx qp.
      results session_merged = map virusResult vs @ map proteinResult ps
    \<and> vs = take k (virusSearch exact (virusIndex session_merged) qv)
    \<and> ps = proteinSearch exact idx qp
    \<and> ranked vs \<and> ranked ps
    \<and> (\<forall>r\<in>set (map virusResult vs). r_type r = Virus)
    \<and> (\<forall>r\<in>set (map proteinResult ps). r_type r = Protein)
    \<and> (\<forall>h\<in>set vs. refIndex h < length (virusIndex session_merged)
          \<and> item h = virusIndex session_merged ! refIndex h
          \<and> score h = exact qv [v_name (item h), v_id (item h)])
    \<and> (\<forall>h\<in>set ps. refIndex h < length idx \<and> item h = idx ! refIndex h
          \<and> score h = exact qp [p_name (item h), p_id (item h), p_virusName (item h)])"
    unfolding session_merged_def by (rule results_tiered_and_ranked)
qed

end
